theory Spec2Isabelle
  imports Complex_Main "HOL-Library.Word"
begin

section \<open>Conventions of the embedding\<close>

text \<open>
  Two Python programs are embedded: the temperature dashboard
  (\<^verbatim>\<open>Tela_grafica_temperatura.py\<close>, class \<^verbatim>\<open>App\<close>) and the webcam radar
  (\<^verbatim>\<open>Tela_grafica_sensor_luz.py\<close>, class \<^verbatim>\<open>RadarLuxCam\<close>).

  \<^item> An object with fields is a record; a method that mutates \<^verbatim>\<open>self\<close> takes the
    record and returns the updated one.
  \<^item> A Python \<^verbatim>\<open>float\<close> is idealised as a \<open>real\<close>: the arithmetic of the source is
    kept operation by operation, its rounding error is not modelled. A Python
    \<^verbatim>\<open>int\<close> is an \<open>int\<close>.
  \<^item> What the program reads from outside (a random draw, the clock, a camera frame)
    is an argument of the function that reads it.
  \<^item> An exception is a value of type \<open>error\<close>. A method that can raise after it has
    already mutated \<^verbatim>\<open>self\<close> returns the raised error (if any) together with the
    state it leaves behind, since Tk reports an exception of a callback and keeps
    the object alive.
\<close>

datatype error = RuntimeError | IndexError | ZeroDivisionError | Cv2Error

section \<open>The temperature dashboard\<close>

subsection \<open>The bounded deque of the standard library\<close>

text \<open>
  \<^verbatim>\<open>collections.deque(maxlen=n)\<close>: \<^verbatim>\<open>append\<close> adds the value on the right and, when the
  deque then holds more than \<^verbatim>\<open>maxlen\<close> values, drops the leftmost one.
\<close>

record 'a deque =
  maxlen :: nat
  items :: "'a list"

definition deque_new :: "nat \<Rightarrow> 'a deque" where
  "deque_new n = \<lparr>maxlen = n, items = []\<rparr>"

definition deque_append :: "'a deque \<Rightarrow> 'a \<Rightarrow> 'a deque" where
  "deque_append d x =
     (let ys = items d @ [x]
      in d\<lparr>items := (if maxlen d < length ys then tl ys else ys)\<rparr>)"

subsection \<open>Module constants\<close>

definition INTERVALO_S :: nat where
  "INTERVALO_S = 1"

definition MAX_PONTOS :: nat where
  "MAX_PONTOS = 120"

subsection \<open>The simulated sensor\<close>

text \<open>
  \<^verbatim>\<open>random.uniform(a, b)\<close> is \<^verbatim>\<open>a + (b - a) * self.random()\<close>; the draw
  \<^verbatim>\<open>self.random()\<close>, a number in \<open>[0, 1)\<close>, is the argument \<open>u\<close>.
\<close>

definition uniform :: "real \<Rightarrow> real \<Rightarrow> real \<Rightarrow> real" where
  "uniform a b u = a + (b - a) * u"

text \<open>
  \<^verbatim>\<open>round(x, ndigits)\<close> rounds to the nearest multiple of \<open>10\<^sup>-\<^sup>n\<close>, a tie going to
  the even neighbour.
\<close>

definition round_half_even :: "real \<Rightarrow> int" where
  "round_half_even x =
     (let f = \<lfloor>x\<rfloor>; d = x - of_int f
      in if d < 1 / 2 then f
         else if 1 / 2 < d then f + 1
         else if even f then f else f + 1)"

definition py_round :: "real \<Rightarrow> nat \<Rightarrow> real" where
  "py_round x ndigits = of_int (round_half_even (x * 10 ^ ndigits)) / 10 ^ ndigits"

definition ler_sensor :: "real \<Rightarrow> real" where
  "ler_sensor u = py_round (uniform 24 30 u) 1"

subsection \<open>The application object\<close>

text \<open>
  The label shows \<^verbatim>\<open>"-- \<degree>C"\<close> until the first refresh (\<open>None\<close>), then the value
  it was last given; \<open>line_data\<close> is what \<^verbatim>\<open>self.line.set_data\<close> last received.
\<close>

record app =
  temps :: "real deque"
  times :: "real deque"
  start_time :: real
  valor_lbl :: "real option"
  line_data :: "real list \<times> real list"

text \<open>\<^verbatim>\<open>App.__init__\<close>; \<open>now\<close> is the value of \<^verbatim>\<open>time.time()\<close>.\<close>

definition app_init :: "real \<Rightarrow> app" where
  "app_init now =
     \<lparr>temps = deque_new MAX_PONTOS,
      times = deque_new MAX_PONTOS,
      start_time = now,
      valor_lbl = None,
      line_data = ([], [])\<rparr>"

text \<open>
  One turn of the \<^verbatim>\<open>while True\<close> loop of \<^verbatim>\<open>App.aquisicao\<close>. Its input is the pair of
  the sensor's random draw and the clock reading of that turn.
\<close>

definition aquisicao_iter :: "app \<Rightarrow> real \<times> real \<Rightarrow> app" where
  "aquisicao_iter s inp =
     (let temp = ler_sensor (fst inp);
          t = snd inp - start_time s
      in s\<lparr>temps := deque_append (temps s) temp,
            times := deque_append (times s) t\<rparr>)"

text \<open>
  The loop never returns. \<open>aquisicao s inps\<close> is the state it has reached after the
  turns that consumed the inputs \<open>inps\<close>, in order.
\<close>

definition aquisicao :: "app \<Rightarrow> (real \<times> real) list \<Rightarrow> app" where
  "aquisicao s inps = foldl aquisicao_iter s inps"

text \<open>\<^verbatim>\<open>App.update_gui\<close>, run by the Tk timer; it only reads the two deques.\<close>

definition update_gui :: "app \<Rightarrow> app" where
  "update_gui s =
     (if items (temps s) \<noteq> []
      then s\<lparr>valor_lbl := Some (last (items (temps s))),
             line_data := (items (times s), items (temps s))\<rparr>
      else s)"

section \<open>The webcam radar\<close>

subsection \<open>Layout constants\<close>

definition SIZE :: int where
  "SIZE = 480"

definition MARGEM :: int where
  "MARGEM = 12"

definition RAIO :: int where
  "RAIO = (SIZE div 2) - MARGEM"

definition RINGS :: int where
  "RINGS = 4"

subsection \<open>The canvas\<close>

text \<open>
  A canvas item is what \<^verbatim>\<open>create_oval\<close> or \<^verbatim>\<open>create_line\<close> was given: the four
  coordinates, the fill and outline colours (the empty string where the call gives
  none), the line width, and the tags.
\<close>

datatype item =
    Oval real real real real string string "string list"
  | Line real real real real string int "string list"

fun item_tags :: "item \<Rightarrow> string list" where
  "item_tags (Oval a b c d fill outline tags) = tags"
| "item_tags (Line a b c d fill width tags) = tags"

text \<open>\<^verbatim>\<open>canvas.delete(tag)\<close> removes every item that carries the tag.\<close>

definition canvas_delete :: "string \<Rightarrow> item list \<Rightarrow> item list" where
  "canvas_delete tag cv = filter (\<lambda>it. \<not> List.member (item_tags it) tag) cv"

subsection \<open>The radar object\<close>

text \<open>
  The three Tk variables hold what their \<^verbatim>\<open>get()\<close> returns. \<open>lux_label\<close> is \<open>None\<close>
  while the label shows \<^verbatim>\<open>"-- lux"\<close>, then the value whose \<^verbatim>\<open>4.0f\<close> rendering it
  shows. \<open>pending\<close> lists the calls of \<^verbatim>\<open>_update\<close> that \<^verbatim>\<open>self.after\<close> has scheduled
  and Tk has not yet run, each with its delay in milliseconds, oldest first.
\<close>

record radar =
  amplitude_var :: int
  sweep_var :: int
  interval_var :: int
  readings :: "real list"
  angle :: int
  running :: bool
  cap_opened :: bool
  lux_label :: "real option"
  canvas :: "item list"
  pending :: "int list"

text \<open>\<^verbatim>\<open>range(start, stop, step)\<close> for a positive step.\<close>

definition py_range :: "int \<Rightarrow> int \<Rightarrow> int \<Rightarrow> int list" where
  "py_range start stop step =
     (if 0 < step \<and> start < stop
      then map (\<lambda>k. start + int k * step) [0..<nat ((stop - start + step - 1) div step)]
      else [])"

definition draw_grid :: "radar \<Rightarrow> radar" where
  "draw_grid s =
     (let cx = SIZE div 2; cy = SIZE div 2;
          step = RAIO div RINGS;
          ovals = map (\<lambda>r. Oval (of_int (cx - r)) (of_int (cy - r)) (of_int (cx + r))
                               (of_int (cy + r)) [] ''#003300'' [])
                      (py_range step (RAIO + 1) step)
      in s\<lparr>canvas := canvas s @ ovals @
            [Line (of_int cx) (of_int (cy - RAIO)) (of_int cx) (of_int (cy + RAIO))
               ''#003300'' 1 [],
             Line (of_int (cx - RAIO)) (of_int cy) (of_int (cx + RAIO)) (of_int cy)
               ''#003300'' 1 []]\<rparr>)"

text \<open>
  \<^verbatim>\<open>RadarLuxCam.__init__\<close>; \<open>opened\<close> is the answer of \<^verbatim>\<open>self.cap.isOpened()\<close>.
  \<open>radar_new\<close> is the object it builds when the camera has opened; of \<^verbatim>\<open>_build_ui\<close>
  the state keeps the label and the canvas with its grid.
\<close>

definition radar_new :: radar where
  "radar_new =
     draw_grid
       \<lparr>amplitude_var = 1000, sweep_var = 2, interval_var = 60,
        readings = replicate 360 0, angle = 0, running = False,
        cap_opened = True, lux_label = None, canvas = [], pending = []\<rparr>"

definition radar_init :: "bool \<Rightarrow> error + radar" where
  "radar_init opened = (if \<not> opened then Inl RuntimeError else Inr radar_new)"

subsection \<open>Reading the camera\<close>

text \<open>
  What \<^verbatim>\<open>self.cap.read()\<close> returns: the flag \<^verbatim>\<open>ret\<close> and the frame. The frame is kept
  as the grayscale image that \<^verbatim>\<open>cv2.cvtColor(frame, cv2.COLOR_BGR2GRAY)\<close> makes of it,
  one byte a pixel; \<^verbatim>\<open>cvtColor\<close> raises on an empty image. \<^verbatim>\<open>np.mean\<close> sums the bytes
  as floats and divides by their number.
\<close>

record camera_read =
  ret :: bool
  gray :: "8 word list"

definition np_mean :: "8 word list \<Rightarrow> real" where
  "np_mean px = real (sum_list (map unat px)) / real (length px)"

definition read_lux_from_camera :: "camera_read \<Rightarrow> radar \<Rightarrow> error + real" where
  "read_lux_from_camera cam s =
     (if \<not> ret cam then Inr 0
      else if gray cam = [] then Inl Cv2Error
      else let mean_intensity = np_mean (gray cam);
               amp = amplitude_var s;
               lux = (mean_intensity / 255) * of_int amp
           in Inr lux)"

subsection \<open>Start, stop, reset\<close>

definition schedule_next :: "radar \<Rightarrow> radar" where
  "schedule_next s =
     (if running s then s\<lparr>pending := pending s @ [interval_var s]\<rparr> else s)"

definition start :: "radar \<Rightarrow> radar" where
  "start s = (if \<not> running s then schedule_next (s\<lparr>running := True\<rparr>) else s)"

definition stop :: "radar \<Rightarrow> radar" where
  "stop s = s\<lparr>running := False\<rparr>"

definition reset :: "radar \<Rightarrow> radar" where
  "reset s =
     s\<lparr>readings := replicate 360 0,
       canvas := canvas_delete ''dynamic'' (canvas s),
       angle := 0\<rparr>"

subsection \<open>Drawing\<close>

text \<open>\<^verbatim>\<open>int(x)\<close> of a float truncates towards zero.\<close>

definition py_int :: "real \<Rightarrow> int" where
  "py_int x = (if 0 \<le> x then \<lfloor>x\<rfloor> else \<lceil>x\<rceil>)"

text \<open>\<^verbatim>\<open>math.radians\<close>.\<close>

definition radians :: "real \<Rightarrow> real" where
  "radians d = d * pi / 180"

text \<open>
  The green level \<^verbatim>\<open>g\<close> of \<^verbatim>\<open>_lux_to_color\<close>, as its first three statements compute
  it; the division raises when the amplitude is zero.
\<close>

definition lux_to_green :: "radar \<Rightarrow> real \<Rightarrow> error + int" where
  "lux_to_green s lux =
     (let amp = amplitude_var s
      in if amp = 0 then Inl ZeroDivisionError
         else let g = py_int (50 + 205 * lux / of_int amp)
              in Inr (max 0 (min 255 g)))"

definition hex_digit :: "int \<Rightarrow> char" where
  "hex_digit d = ''0123456789abcdef'' ! nat d"

text \<open>The format \<^verbatim>\<open>{g:02x}\<close> for \<open>0 \<le> g \<le> 255\<close>, the only values it is given.\<close>

definition format_02x :: "int \<Rightarrow> string" where
  "format_02x g = [hex_digit (g div 16), hex_digit (g mod 16)]"

definition lux_to_color :: "radar \<Rightarrow> real \<Rightarrow> error + string" where
  "lux_to_color s lux =
     (case lux_to_green s lux of
        Inl e \<Rightarrow> Inl e
      | Inr g \<Rightarrow> Inr (''#00'' @ format_02x g @ ''00''))"

text \<open>
  The loop of \<^verbatim>\<open>_draw_points\<close> over \<^verbatim>\<open>enumerate(self.readings)\<close>. An exception leaves
  on the canvas what the earlier turns have drawn.
\<close>

fun draw_points_loop :: "int \<Rightarrow> (nat \<times> real) list \<Rightarrow> radar \<Rightarrow> error option \<times> radar" where
  "draw_points_loop amp [] s = (None, s)"
| "draw_points_loop amp ((ang, lux) # rest) s =
     (if lux \<le> 0 then draw_points_loop amp rest s
      else if amp = 0 then (Some ZeroDivisionError, s)
      else let cx = of_int (SIZE div 2); cy = of_int (SIZE div 2);
               r = (lux / of_int amp) * of_int RAIO;
               theta = radians (real ang);
               x = cx + r * cos theta;
               y = cy - r * sin theta
           in case lux_to_color s lux of
                Inl e \<Rightarrow> (Some e, s)
              | Inr color \<Rightarrow>
                  draw_points_loop amp rest
                    (s\<lparr>canvas := canvas s @
                       [Oval (x - 2) (y - 2) (x + 2) (y + 2) color color [''dynamic'']]\<rparr>))"

definition draw_points :: "radar \<Rightarrow> error option \<times> radar" where
  "draw_points s = draw_points_loop (amplitude_var s) (enumerate 0 (readings s)) s"

definition draw_beam :: "radar \<Rightarrow> radar" where
  "draw_beam s =
     (let cx = of_int (SIZE div 2); cy = of_int (SIZE div 2);
          theta = radians (of_int (angle s));
          x = cx + of_int RAIO * cos theta;
          y = cy - of_int RAIO * sin theta
      in s\<lparr>canvas := canvas s @ [Line cx cy x y ''#00ff00'' 2 [''dynamic'']]\<rparr>)"

subsection \<open>The update tick\<close>

text \<open>
  \<^verbatim>\<open>xs[i] = v\<close> on a Python list: a negative index counts from the end, an index out
  of range raises \<^verbatim>\<open>IndexError\<close>.
\<close>

definition list_setitem :: "'a list \<Rightarrow> int \<Rightarrow> 'a \<Rightarrow> error + 'a list" where
  "list_setitem xs i v =
     (let n = int (length xs); j = (if i < 0 then n + i else i)
      in if 0 \<le> j \<and> j < n then Inr (xs[nat j := v]) else Inl IndexError)"

text \<open>\<^verbatim>\<open>RadarLuxCam._update\<close>; \<open>cam\<close> is what the camera returns on this tick.\<close>

definition update :: "camera_read \<Rightarrow> radar \<Rightarrow> error option \<times> radar" where
  "update cam s =
     (if \<not> running s then (None, s)
      else case read_lux_from_camera cam s of
        Inl e \<Rightarrow> (Some e, s)
      | Inr lux_val \<Rightarrow>
          (case list_setitem (readings s) (angle s) lux_val of
             Inl e \<Rightarrow> (Some e, s)
           | Inr rs \<Rightarrow>
               (let s1 = s\<lparr>readings := rs, lux_label := Some lux_val\<rparr>;
                    s2 = s1\<lparr>canvas := canvas_delete ''dynamic'' (canvas s1)\<rparr>
                in case draw_points s2 of
                     (Some e, s3) \<Rightarrow> (Some e, s3)
                   | (None, s3) \<Rightarrow>
                       (let s4 = draw_beam s3;
                            s5 = s4\<lparr>angle := (angle s4 + sweep_var s4) mod 360\<rparr>
                        in (None, schedule_next s5)))))"

text \<open>
  Tk runs the oldest scheduled call of \<^verbatim>\<open>_update\<close>: the call leaves the queue, then
  runs.
\<close>

definition fire :: "camera_read \<Rightarrow> radar \<Rightarrow> error option \<times> radar" where
  "fire cam s =
     (case pending s of
        [] \<Rightarrow> (None, s)
      | d # ds \<Rightarrow> update cam (s\<lparr>pending := ds\<rparr>))"

text \<open>The invariant of the radar's cursor and buffer.\<close>

definition radar_inv :: "radar \<Rightarrow> bool" where
  "radar_inv s \<longleftrightarrow> 0 \<le> angle s \<and> angle s \<le> 359 \<and> length (readings s) = 360"

section \<open>Properties of the temperature dashboard\<close>

subsection \<open>The rolling buffer\<close>

lemma deque_append_maxlen: "maxlen (deque_append d x) = maxlen d"
  by (simp add: deque_append_def Let_def)

lemma foldl_deque_append_maxlen: "maxlen (foldl deque_append d vs) = maxlen d"
  by (induction vs arbitrary: d) (simp_all add: deque_append_maxlen)

lemma tl_window: "length ys = Suc M \<Longrightarrow> tl ys = drop (length ys - M) ys"
  by (simp add: drop_Suc)

lemma window_snoc:
  "drop (length (drop (length ws - M) ws @ [v]) - M) (drop (length ws - M) ws @ [v])
     = drop (length (ws @ [v]) - M) (ws @ [v])"
proof (cases "length ws \<le> M")
  case True
  then show ?thesis by simp
next
  case False
  define k where "k = length ws - M"
  have k: "k \<le> length ws" "length ws - k = M" "Suc (length ws) - M = Suc k"
    using False by (simp_all add: k_def)
  have "drop (length (drop k ws @ [v]) - M) (drop k ws @ [v]) = drop (Suc 0) (drop k ws @ [v])"
    using k by simp
  also have "drop k ws @ [v] = drop k (ws @ [v])"
    using k by simp
  also have "drop (Suc 0) (drop k (ws @ [v])) = drop (Suc k) (ws @ [v])"
    by (simp only: drop_drop) simp
  finally show ?thesis
    using k by (simp add: k_def)
qed

lemma deque_append_items:
  assumes "length (items d) \<le> maxlen d"
  shows "items (deque_append d x) =
           drop (length (items d @ [x]) - maxlen d) (items d @ [x])"
proof -
  define ys where "ys = items d @ [x]"
  have unfold: "items (deque_append d x) = (if maxlen d < length ys then tl ys else ys)"
    by (simp add: deque_append_def Let_def ys_def)
  show ?thesis
  proof (cases "maxlen d < length ys")
    case True
    with assms have "length ys = Suc (maxlen d)" by (simp add: ys_def)
    then have "tl ys = drop (length ys - maxlen d) ys" by (rule tl_window)
    with True unfold show ?thesis by (simp only: ys_def if_True)
  next
    case False
    with unfold show ?thesis by (simp add: ys_def)
  qed
qed

lemma foldl_deque_append_items:
  "length (items d) \<le> maxlen d \<Longrightarrow>
   items (foldl deque_append d vs) =
     drop (length (items d @ vs) - maxlen d) (items d @ vs)"
proof (induction vs rule: rev_induct)
  case Nil
  then show ?case by simp
next
  case (snoc v vs)
  define e where "e = foldl deque_append d vs"
  define ws where "ws = items d @ vs"
  have ih: "items e = drop (length ws - maxlen d) ws"
    using snoc by (simp add: e_def ws_def)
  have m: "maxlen e = maxlen d"
    by (simp add: e_def foldl_deque_append_maxlen)
  have len: "length (items e) \<le> maxlen e"
    unfolding ih m by simp
  have "items (foldl deque_append d (vs @ [v])) = items (deque_append e v)"
    by (simp add: e_def)
  also have "\<dots> = drop (length (items e @ [v]) - maxlen d) (items e @ [v])"
    using deque_append_items [OF len] by (simp only: m)
  also have "\<dots> = drop (length (ws @ [v]) - maxlen d) (ws @ [v])"
    unfolding ih by (rule window_snoc)
  finally show ?case by (simp add: ws_def)
qed

lemma rolling_last: "items (foldl deque_append (deque_new N) vs) = drop (length vs - N) vs"
  using foldl_deque_append_items [of "deque_new N" vs] by (simp add: deque_new_def)

lemma aquisicao_temps:
  "temps (foldl aquisicao_iter s inps) =
     foldl deque_append (temps s) (map (\<lambda>i. ler_sensor (fst i)) inps)"
  by (induction inps arbitrary: s) (simp_all add: aquisicao_iter_def Let_def)

text \<open>
  C1. Whatever the capacity \<open>N\<close>, a buffer created empty that then receives \<open>N + k\<close>
  values holds exactly the last \<open>N\<close> of them, in the order they were inserted. For
  the dashboard: after 150 turns of the acquisition loop the temperature buffer
  (capacity 120) holds the samples of turns 31 to 150, in order.
\<close>

theorem rolling_buffer_retains_last:
  "(length vs = N + k \<longrightarrow>
      items (foldl deque_append (deque_new N) vs) = drop k vs
      \<and> length (items (foldl deque_append (deque_new N) vs)) = N)
   \<and> (length inps = 150 \<longrightarrow>
      items (temps (aquisicao (app_init now) inps)) =
        map (\<lambda>i. ler_sensor (fst i)) (drop 30 inps))"
proof (intro conjI impI)
  assume "length vs = N + k"
  then show "items (foldl deque_append (deque_new N) vs) = drop k vs"
    by (simp add: rolling_last)
next
  assume "length vs = N + k"
  then show "length (items (foldl deque_append (deque_new N) vs)) = N"
    by (simp add: rolling_last)
next
  assume "length inps = 150"
  then show "items (temps (aquisicao (app_init now) inps)) =
      map (\<lambda>i. ler_sensor (fst i)) (drop 30 inps)"
    by (simp add: aquisicao_def aquisicao_temps app_init_def rolling_last MAX_PONTOS_def
        drop_map)
qed

theorem rolling_buffer_retains_last_witness:
  "items (foldl deque_append (deque_new 2) [5, 6, 7 :: nat]) = [6, 7]
   \<and> items (temps (aquisicao (app_init 0) (map (\<lambda>i. (real i / 150, real i)) [0..<150]))) =
       map (\<lambda>i. ler_sensor (real i / 150)) [30..<150]"
  using rolling_buffer_retains_last [of "[5, 6, 7 :: nat]" 2 1
      "map (\<lambda>i. (real i / 150, real i)) [0..<150]" 0]
  by (simp add: drop_map comp_def)

subsection \<open>The simulated sensor\<close>

lemma round_half_even_lower: "of_int n \<le> x \<Longrightarrow> n \<le> round_half_even x"
proof -
  assume "of_int n \<le> x"
  then have "n \<le> \<lfloor>x\<rfloor>" by (simp add: le_floor_iff)
  then show ?thesis by (simp add: round_half_even_def Let_def)
qed

lemma round_half_even_upper: "x \<le> of_int n \<Longrightarrow> round_half_even x \<le> n"
proof (cases "x = of_int n")
  case True
  then show ?thesis by (simp add: round_half_even_def Let_def)
next
  case False
  assume "x \<le> of_int n"
  with False have "x < of_int n" by simp
  then have "\<lfloor>x\<rfloor> < n" by (simp add: floor_less_iff)
  then show ?thesis by (simp add: round_half_even_def Let_def)
qed

lemma ler_sensor_eq: "ler_sensor u = of_int (round_half_even (240 + 60 * u)) / 10"
  by (simp add: ler_sensor_def py_round_def uniform_def algebra_simps)

lemma ler_sensor_bounds:
  assumes "0 \<le> u" "u < 1"
  shows "24 \<le> ler_sensor u" "ler_sensor u \<le> 30"
proof -
  have "of_int 240 \<le> 240 + 60 * u" using assms by simp
  then have "240 \<le> round_half_even (240 + 60 * u)" by (rule round_half_even_lower)
  then show "24 \<le> ler_sensor u" by (simp add: ler_sensor_eq)
  have "240 + 60 * u \<le> of_int 300" using assms by simp
  then have "round_half_even (240 + 60 * u) \<le> 300" by (rule round_half_even_upper)
  then show "ler_sensor u \<le> 30" by (simp add: ler_sensor_eq)
qed

lemma aquisicao_temps_subset:
  "set (items (temps (aquisicao (app_init now) inps))) \<subseteq> (\<lambda>i. ler_sensor (fst i)) ` set inps"
proof -
  have "items (temps (aquisicao (app_init now) inps)) =
      drop (length inps - MAX_PONTOS) (map (\<lambda>i. ler_sensor (fst i)) inps)"
    by (simp add: aquisicao_def aquisicao_temps app_init_def rolling_last)
  then show ?thesis
    using set_drop_subset [of "length inps - MAX_PONTOS" "map (\<lambda>i. ler_sensor (fst i)) inps"]
    by simp
qed

text \<open>
  C10. With a draw \<open>u\<close> in \<open>[0, 1)\<close> the simulated sensor returns a value between 24
  and 30 that is a whole number of tenths; so every value that the acquisition loop
  has put in the temperature buffer lies between 24 and 30.
\<close>

theorem ler_sensor_in_range:
  "(0 \<le> u \<and> u < 1 \<longrightarrow>
      24 \<le> ler_sensor u \<and> ler_sensor u \<le> 30 \<and> (\<exists>n::int. ler_sensor u = of_int n / 10))
   \<and> ((\<forall>i \<in> set inps. 0 \<le> fst i \<and> fst i < 1) \<longrightarrow>
      (\<forall>x \<in> set (items (temps (aquisicao (app_init now) inps))). 24 \<le> x \<and> x \<le> 30))"
proof (intro conjI impI ballI)
  assume u: "0 \<le> u \<and> u < 1"
  then show "24 \<le> ler_sensor u" by (simp add: ler_sensor_bounds)
  from u show "ler_sensor u \<le> 30" by (simp add: ler_sensor_bounds)
  show "\<exists>n::int. ler_sensor u = of_int n / 10"
    using ler_sensor_eq by blast
next
  fix x
  assume all: "\<forall>i \<in> set inps. 0 \<le> fst i \<and> fst i < 1"
    and x: "x \<in> set (items (temps (aquisicao (app_init now) inps)))"
  from x aquisicao_temps_subset obtain i where i: "i \<in> set inps" "x = ler_sensor (fst i)"
    by blast
  with all have "0 \<le> fst i" "fst i < 1" by auto
  then show "24 \<le> x" using i by (simp add: ler_sensor_bounds)
next
  fix x
  assume all: "\<forall>i \<in> set inps. 0 \<le> fst i \<and> fst i < 1"
    and x: "x \<in> set (items (temps (aquisicao (app_init now) inps)))"
  from x aquisicao_temps_subset obtain i where i: "i \<in> set inps" "x = ler_sensor (fst i)"
    by blast
  with all have "0 \<le> fst i" "fst i < 1" by auto
  then show "x \<le> 30" using i by (simp add: ler_sensor_bounds)
qed

theorem ler_sensor_in_range_witness:
  "24 \<le> ler_sensor (1 / 2) \<and> ler_sensor (1 / 2) \<le> 30
   \<and> (\<exists>n::int. ler_sensor (1 / 2) = of_int n / 10)
   \<and> list_all (\<lambda>x. 24 \<le> x \<and> x \<le> 30)
        (items (temps (aquisicao (app_init 0) [(1 / 2, 1), (0, 2)])))"
  using ler_sensor_in_range [of "1 / 2" "[(1 / 2, 1), (0, 2)]" 0]
  by (simp add: list_all_iff)

section \<open>Properties of the webcam radar\<close>

subsection \<open>Drawing the points\<close>

lemma lux_to_color_ok:
  "amplitude_var s \<noteq> 0 \<Longrightarrow> \<exists>color. lux_to_color s lux = Inr color"
  by (simp add: lux_to_color_def lux_to_green_def Let_def)

lemma lux_to_color_canvas: "lux_to_color (s\<lparr>canvas := c\<rparr>) lux = lux_to_color s lux"
  by (simp add: lux_to_color_def lux_to_green_def)

lemma draw_points_loop_frame:
  "snd (draw_points_loop amp xs s) = s\<lparr>canvas := canvas (snd (draw_points_loop amp xs s))\<rparr>"
proof (induction amp xs s rule: draw_points_loop.induct)
  case (1 amp s)
  then show ?case by simp
next
  case (2 amp ang lux rest s)
  show ?case
  proof (cases "lux \<le> 0")
    case True
    with 2 show ?thesis by simp
  next
    case pos: False
    show ?thesis
    proof (cases "amp = 0")
      case True
      with pos show ?thesis by simp
    next
      case nz: False
      show ?thesis
      proof (cases "lux_to_color s lux")
        case (Inl e)
        with pos nz show ?thesis by (simp add: Let_def)
      next
        case (Inr color)
        from "2.IH"(2) [OF pos nz refl refl refl refl refl refl Inr]
        show ?thesis using pos nz Inr
          by (simp add: Let_def)
      qed
    qed
  qed
qed

lemma draw_points_loop_no_error:
  "amp \<noteq> 0 \<Longrightarrow> amplitude_var s = amp \<Longrightarrow> fst (draw_points_loop amp xs s) = None"
proof (induction amp xs s rule: draw_points_loop.induct)
  case (1 amp s)
  then show ?case by simp
next
  case (2 amp ang lux rest s)
  from 2(3,4) obtain color where c: "lux_to_color s lux = Inr color"
    using lux_to_color_ok by blast
  show ?case
  proof (cases "lux \<le> 0")
    case True
    with 2 show ?thesis by simp
  next
    case False
    with 2 c show ?thesis by (simp add: Let_def)
  qed
qed

lemma draw_points_loop_skip:
  "list_all (\<lambda>p. snd p \<le> 0) xs \<Longrightarrow> draw_points_loop amp xs s = (None, s)"
  by (induction amp xs s rule: draw_points_loop.induct) simp_all

lemma draw_points_loop_keeps:
  "set (canvas s) \<subseteq> set (canvas (snd (draw_points_loop amp xs s)))"
proof (induction amp xs s rule: draw_points_loop.induct)
  case (1 amp s)
  then show ?case by simp
next
  case (2 amp ang lux rest s)
  show ?case
  proof (cases "lux \<le> 0")
    case True
    with 2 show ?thesis by simp
  next
    case pos: False
    show ?thesis
    proof (cases "amp = 0")
      case True
      with pos show ?thesis by simp
    next
      case nz: False
      show ?thesis
      proof (cases "lux_to_color s lux")
        case (Inl e)
        with pos nz show ?thesis by (simp add: Let_def)
      next
        case (Inr color)
        from "2.IH"(2) [OF pos nz refl refl refl refl refl refl Inr]
        show ?thesis using pos nz Inr
          by (simp add: Let_def)
      qed
    qed
  qed
qed

lemma draw_points_loop_member:
  assumes "(a, m) \<in> set xs" and "0 < m" and "amp \<noteq> 0" and "amplitude_var s = amp"
    and "lux_to_color s m = Inr col"
  shows "Oval (of_int (SIZE div 2) + (m / of_int amp) * of_int RAIO * cos (radians (real a)) - 2)
              (of_int (SIZE div 2) - (m / of_int amp) * of_int RAIO * sin (radians (real a)) - 2)
              (of_int (SIZE div 2) + (m / of_int amp) * of_int RAIO * cos (radians (real a)) + 2)
              (of_int (SIZE div 2) - (m / of_int amp) * of_int RAIO * sin (radians (real a)) + 2)
              col col [''dynamic'']
           \<in> set (canvas (snd (draw_points_loop amp xs s)))"
  using assms
proof (induction amp xs s rule: draw_points_loop.induct)
  case (1 amp s)
  then show ?case by simp
next
  case (2 amp ang lux rest s)
  show ?case
  proof (cases "lux \<le> 0")
    case True
    with 2 show ?thesis by auto
  next
    case pos: False
    from "2.prems" have nz: "amp \<noteq> 0" by simp
    from "2.prems" obtain color where c: "lux_to_color s lux = Inr color"
      using lux_to_color_ok by blast
    define s' where "s' = s\<lparr>canvas := canvas s @
       [Oval (of_int (SIZE div 2) + (lux / of_int amp) * of_int RAIO * cos (radians (real ang)) - 2)
             (of_int (SIZE div 2) - (lux / of_int amp) * of_int RAIO * sin (radians (real ang)) - 2)
             (of_int (SIZE div 2) + (lux / of_int amp) * of_int RAIO * cos (radians (real ang)) + 2)
             (of_int (SIZE div 2) - (lux / of_int amp) * of_int RAIO * sin (radians (real ang)) + 2)
             color color [''dynamic'']]\<rparr>"
    have step: "draw_points_loop amp ((ang, lux) # rest) s = draw_points_loop amp rest s'"
      using pos nz c by (simp add: Let_def s'_def)
    show ?thesis
    proof (cases "(a, m) = (ang, lux)")
      case True
      with c "2.prems" have "col = color" by simp
      with True have "Oval (of_int (SIZE div 2) + (m / of_int amp) * of_int RAIO * cos (radians (real a)) - 2)
              (of_int (SIZE div 2) - (m / of_int amp) * of_int RAIO * sin (radians (real a)) - 2)
              (of_int (SIZE div 2) + (m / of_int amp) * of_int RAIO * cos (radians (real a)) + 2)
              (of_int (SIZE div 2) - (m / of_int amp) * of_int RAIO * sin (radians (real a)) + 2)
              col col [''dynamic''] \<in> set (canvas s')"
        by (simp add: s'_def)
      then show ?thesis
        unfolding step using draw_points_loop_keeps [of s' amp rest] by blast
    next
      case False
      with "2.prems" have mem: "(a, m) \<in> set rest" by auto
      have "lux_to_color s' m = Inr col" "amplitude_var s' = amp"
        using "2.prems" by (simp_all add: s'_def lux_to_color_canvas)
      with "2.IH"(2) [OF pos nz refl refl refl refl refl refl c mem] "2.prems"
      show ?thesis unfolding step s'_def by simp
    qed
  qed
qed

lemma draw_points_loop_count:
  "amp \<noteq> 0 \<Longrightarrow> amplitude_var s = amp \<Longrightarrow>
   length (canvas (snd (draw_points_loop amp xs s))) =
     length (canvas s) + length (filter (\<lambda>p. 0 < snd p) xs)"
proof (induction amp xs s rule: draw_points_loop.induct)
  case (1 amp s)
  then show ?case by simp
next
  case (2 amp ang lux rest s)
  from 2(3,4) obtain color where c: "lux_to_color s lux = Inr color"
    using lux_to_color_ok by blast
  show ?case
  proof (cases "lux \<le> 0")
    case True
    with 2 show ?thesis by simp
  next
    case False
    with 2 c show ?thesis by (simp add: Let_def)
  qed
qed

lemma draw_points_frame:
  "snd (draw_points s) = s\<lparr>canvas := canvas (snd (draw_points s))\<rparr>"
  unfolding draw_points_def by (rule draw_points_loop_frame)

lemma draw_points_no_error: "amplitude_var s \<noteq> 0 \<Longrightarrow> fst (draw_points s) = None"
  unfolding draw_points_def by (rule draw_points_loop_no_error) simp_all

lemma update_idle: "\<not> running s \<Longrightarrow> update cam s = (None, s)"
  by (simp add: update_def)

lemma update_read_error:
  "running s \<Longrightarrow> read_lux_from_camera cam s = Inl e \<Longrightarrow> update cam s = (Some e, s)"
  by (simp add: update_def)

lemma update_index_error:
  "running s \<Longrightarrow> read_lux_from_camera cam s = Inr v \<Longrightarrow>
   list_setitem (readings s) (angle s) v = Inl e \<Longrightarrow> update cam s = (Some e, s)"
  by (simp add: update_def)

lemma draw_points_result:
  "\<exists>c. draw_points s = (fst (draw_points s), s\<lparr>canvas := c\<rparr>)"
proof -
  have "draw_points s = (fst (draw_points s), snd (draw_points s))" by simp
  also have "snd (draw_points s) = s\<lparr>canvas := canvas (snd (draw_points s))\<rparr>"
    by (rule draw_points_frame)
  finally show ?thesis by blast
qed

lemma update_stored:
  assumes "running s" and "read_lux_from_camera cam s = Inr v"
    and "list_setitem (readings s) (angle s) v = Inr rs"
  shows "\<exists>c. update cam s =
           (if amplitude_var s = 0 \<and> fst (update cam s) \<noteq> None
            then (fst (update cam s), s\<lparr>readings := rs, lux_label := Some v, canvas := c\<rparr>)
            else (None, s\<lparr>readings := rs, lux_label := Some v, canvas := c,
                          angle := (angle s + sweep_var s) mod 360,
                          pending := pending s @ [interval_var s]\<rparr>))"
proof -
  define s2 where "s2 = s\<lparr>readings := rs, lux_label := Some v,
    canvas := canvas_delete ''dynamic'' (canvas s)\<rparr>"
  obtain c where d: "draw_points s2 = (fst (draw_points s2), s2\<lparr>canvas := c\<rparr>)"
    using draw_points_result by blast
  define eo where "eo = fst (draw_points s2)"
  have d': "draw_points s2 = (eo, s2\<lparr>canvas := c\<rparr>)"
    using d by (simp add: eo_def)
  have u: "update cam s =
      (case eo of
         Some e \<Rightarrow> (Some e, s2\<lparr>canvas := c\<rparr>)
       | None \<Rightarrow> (None, schedule_next
           ((draw_beam (s2\<lparr>canvas := c\<rparr>))\<lparr>angle :=
              (angle (draw_beam (s2\<lparr>canvas := c\<rparr>)) +
               sweep_var (draw_beam (s2\<lparr>canvas := c\<rparr>))) mod 360\<rparr>)))"
    using assms by (simp add: update_def Let_def s2_def [symmetric] d' split: option.split)
  show ?thesis
  proof (cases eo)
    case None
    have "update cam s = (None, s\<lparr>readings := rs, lux_label := Some v,
        canvas := canvas (draw_beam (s2\<lparr>canvas := c\<rparr>)),
        angle := (angle s + sweep_var s) mod 360,
        pending := pending s @ [interval_var s]\<rparr>)"
      unfolding u None using assms(1)
      by (simp add: schedule_next_def draw_beam_def Let_def s2_def)
    then show ?thesis by auto
  next
    case (Some e)
    with d' have "amplitude_var s2 = 0"
      using draw_points_no_error [of s2] by auto
    then have z: "amplitude_var s = 0" by (simp add: s2_def)
    have "update cam s = (Some e, s\<lparr>readings := rs, lux_label := Some v, canvas := c\<rparr>)"
      unfolding u Some by (simp add: s2_def)
    with z show ?thesis by auto
  qed
qed

lemma radar_new_fields:
  "amplitude_var radar_new = 1000" "sweep_var radar_new = 2" "interval_var radar_new = 60"
  "readings radar_new = replicate 360 0" "angle radar_new = 0" "\<not> running radar_new"
  "pending radar_new = []" "lux_label radar_new = None" "cap_opened radar_new"
  by (simp_all add: radar_new_def draw_grid_def Let_def)

lemma canvas_radar_new:
  "canvas radar_new =
     [Oval 183 183 297 297 [] ''#003300'' [],
      Oval 126 126 354 354 [] ''#003300'' [],
      Oval 69 69 411 411 [] ''#003300'' [],
      Oval 12 12 468 468 [] ''#003300'' [],
      Line 240 12 240 468 ''#003300'' 1 [],
      Line 12 240 468 240 ''#003300'' 1 []]"
  by (simp add: radar_new_def draw_grid_def Let_def py_range_def SIZE_def RAIO_def MARGEM_def
      RINGS_def upt_rec)

lemma enumerate_member: "i < length xs \<Longrightarrow> (i, xs ! i) \<in> set (enumerate 0 xs)"
  by (simp add: in_set_enumerate_eq)

lemma count_positive_enumerate:
  "length (filter (\<lambda>p. 0 < snd p) (enumerate n xs)) = length (filter (\<lambda>m. 0 < m) xs)"
  by (induction xs arbitrary: n) simp_all

lemma on_circle:
  "((cx + r * cos t) - cx)\<^sup>2 + ((cy - r * sin t) - cy)\<^sup>2 = (r::real)\<^sup>2"
proof -
  have "((cx + r * cos t) - cx)\<^sup>2 + ((cy - r * sin t) - cy)\<^sup>2 =
      r\<^sup>2 * (cos t)\<^sup>2 + r\<^sup>2 * (sin t)\<^sup>2"
    by (simp add: power_mult_distrib)
  also have "\<dots> = r\<^sup>2 * ((cos t)\<^sup>2 + (sin t)\<^sup>2)"
    by (simp only: distrib_left)
  also have "\<dots> = r\<^sup>2"
    by (simp only: cos_squared_eq) simp
  finally show ?thesis .
qed

lemma enumerate_zeros: "list_all (\<lambda>p. snd p \<le> (0::real)) (enumerate n (replicate k 0))"
  by (auto simp add: list_all_iff in_set_enumerate_eq)

lemma draw_points_radar_new: "draw_points radar_new = (None, radar_new)"
  unfolding draw_points_def radar_new_fields
  by (rule draw_points_loop_skip) (rule enumerate_zeros)

lemma lux_to_color_zero: "lux_to_color radar_new 0 = Inr ''#003200''"
  by (simp add: lux_to_color_def lux_to_green_def radar_new_fields py_int_def format_02x_def
      hex_digit_def)

lemma trig90: "cos (radians 90) = 0" "sin (radians 90) = 1"
  by (simp_all add: radians_def)

lemma color_500: "lux_to_color (radar_new\<lparr>readings := rs\<rparr>) 500 = Inr ''#009800''"
  by (simp add: lux_to_color_def lux_to_green_def radar_new_fields py_int_def format_02x_def
      hex_digit_def)

text \<open>
  C2 (as amended). For a positive amplitude \<open>A\<close> and a stored reading \<open>m > 0\<close> at angle
  \<open>ang\<close>, \<^verbatim>\<open>_draw_points\<close> raises nothing and draws, tagged \<^verbatim>\<open>dynamic\<close>, the oval of
  half-width 2 around the point \<open>(cx + r cos ang, cy - r sin ang)\<close> with
  \<open>r = (m / A) * RAIO\<close>, which lies on the circle of radius \<open>r\<close> around the centre
  \<open>(cx, cy)\<close>. It draws one oval for each positive reading and none for the others.
\<close>

theorem draw_points_projection:
  assumes "0 < amplitude_var s" and "ang < length (readings s)" and "0 < readings s ! ang"
  shows "let m = readings s ! ang;
             r = (m / of_int (amplitude_var s)) * of_int RAIO;
             cx = of_int (SIZE div 2); cy = of_int (SIZE div 2);
             x = cx + r * cos (radians (real ang));
             y = cy - r * sin (radians (real ang))
         in fst (draw_points s) = None
            \<and> (\<exists>col. lux_to_color s m = Inr col
                 \<and> Oval (x - 2) (y - 2) (x + 2) (y + 2) col col [''dynamic'']
                     \<in> set (canvas (snd (draw_points s))))
            \<and> (x - cx)\<^sup>2 + (y - cy)\<^sup>2 = r\<^sup>2
            \<and> length (canvas (snd (draw_points s))) =
                length (canvas s) + length (filter (\<lambda>m. 0 < m) (readings s))"
proof -
  from assms(1) have nz: "amplitude_var s \<noteq> 0" by simp
  then obtain col where col: "lux_to_color s (readings s ! ang) = Inr col"
    using lux_to_color_ok by blast
  have mem: "(ang, readings s ! ang) \<in> set (enumerate 0 (readings s))"
    using assms(2) by (rule enumerate_member)
  have oval: "Oval (of_int (SIZE div 2) + (readings s ! ang / of_int (amplitude_var s)) * of_int RAIO * cos (radians (real ang)) - 2)
              (of_int (SIZE div 2) - (readings s ! ang / of_int (amplitude_var s)) * of_int RAIO * sin (radians (real ang)) - 2)
              (of_int (SIZE div 2) + (readings s ! ang / of_int (amplitude_var s)) * of_int RAIO * cos (radians (real ang)) + 2)
              (of_int (SIZE div 2) - (readings s ! ang / of_int (amplitude_var s)) * of_int RAIO * sin (radians (real ang)) + 2)
              col col [''dynamic'']
           \<in> set (canvas (snd (draw_points s)))"
    unfolding draw_points_def
    using mem assms(3) nz refl col by (rule draw_points_loop_member)
  have cnt: "length (canvas (snd (draw_points s))) =
      length (canvas s) + length (filter (\<lambda>m. 0 < m) (readings s))"
    unfolding draw_points_def
    using draw_points_loop_count [OF nz refl, of "enumerate 0 (readings s)"]
    by (simp only: count_positive_enumerate)
  show ?thesis
    unfolding Let_def
    using draw_points_no_error [OF nz] col oval cnt on_circle by blast
qed

theorem draw_points_projection_witness:
  "fst (draw_points (radar_new\<lparr>readings := (replicate 360 0)[90 := 500]\<rparr>)) = None
   \<and> Oval 238 124 242 128 ''#009800'' ''#009800'' [''dynamic'']
        \<in> set (canvas (snd (draw_points (radar_new\<lparr>readings := (replicate 360 0)[90 := 500]\<rparr>))))"
proof -
  define w where "w = radar_new\<lparr>readings := (replicate 360 0)[90 := 500]\<rparr>"
  have h1: "0 < amplitude_var w" by (simp add: w_def radar_new_fields)
  have h2: "90 < length (readings w)" by (simp add: w_def)
  have m: "readings w ! 90 = 500" by (simp add: w_def)
  have h3: "0 < readings w ! 90" by (simp add: m)
  have c: "lux_to_color w 500 = Inr ''#009800''" by (simp add: w_def color_500)
  have a: "amplitude_var w = 1000" by (simp add: w_def radar_new_fields)
  have t: "cos (radians (real 90)) = 0" "sin (radians (real 90)) = 1"
    using trig90 by simp_all
  show ?thesis
    using draw_points_projection [OF h1 h2 h3]
    unfolding w_def [symmetric] Let_def m c a t
    by (simp add: SIZE_def RAIO_def MARGEM_def)
qed

text \<open>
  C2 as first stated speaks of every stored reading. A reading of zero, which
  is what every slot holds at the start, is skipped by the guard \<^verbatim>\<open>if lux <= 0: continue\<close>:
  on the new radar nothing is drawn, in particular not the oval around the centre
  that the formula gives for \<open>m = 0\<close>.
\<close>

theorem draw_points_zero_reading_counterexample:
  "readings radar_new ! 0 = 0
   \<and> lux_to_color radar_new 0 = Inr ''#003200''
   \<and> canvas (snd (draw_points radar_new)) = canvas radar_new
   \<and> Oval 238 238 242 242 ''#003200'' ''#003200'' [''dynamic'']
        \<notin> set (canvas (snd (draw_points radar_new)))"
  by (simp add: draw_points_radar_new lux_to_color_zero radar_new_fields canvas_radar_new)

subsection \<open>The colour of a reading\<close>

lemma lux_to_green_nonneg:
  assumes "0 < amplitude_var s" and "0 \<le> m"
  shows "lux_to_green s m = Inr (max 0 (min 255 \<lfloor>50 + 205 * m / of_int (amplitude_var s)\<rfloor>))"
proof -
  have "0 \<le> 205 * m / of_int (amplitude_var s)" using assms by simp
  then have "0 \<le> 50 + 205 * m / of_int (amplitude_var s)" by linarith
  then show ?thesis using assms(1) by (simp add: lux_to_green_def py_int_def Let_def)
qed

text \<open>
  C4. For a positive amplitude the green level grows with the magnitude: for
  \<open>0 \<le> m1 \<le> m2\<close> the level \<open>g1\<close> given to \<open>m1\<close> is at most the level \<open>g2\<close> given to
  \<open>m2\<close>, both lie between 0 and 255 (also when the magnitude exceeds the amplitude),
  and the colour is \<^verbatim>\<open>#00\<close>, the level as two hexadecimal digits, \<^verbatim>\<open>00\<close>.
\<close>

theorem lux_to_color_monotone:
  assumes "0 < amplitude_var s" and "0 \<le> m1" and "m1 \<le> m2"
  shows "\<exists>g1 g2. lux_to_green s m1 = Inr g1 \<and> lux_to_green s m2 = Inr g2
           \<and> lux_to_color s m1 = Inr (''#00'' @ format_02x g1 @ ''00'')
           \<and> lux_to_color s m2 = Inr (''#00'' @ format_02x g2 @ ''00'')
           \<and> 0 \<le> g1 \<and> g1 \<le> g2 \<and> g2 \<le> 255"
proof -
  define A where "A = (of_int (amplitude_var s) :: real)"
  have A: "0 < A" using assms(1) by (simp add: A_def)
  from assms have m2: "0 \<le> m2" by simp
  have "205 * m1 / A \<le> 205 * m2 / A"
    using A assms(3) by (simp add: divide_right_mono)
  then have "\<lfloor>50 + 205 * m1 / A\<rfloor> \<le> \<lfloor>50 + 205 * m2 / A\<rfloor>"
    by (intro floor_mono) simp
  then have mono: "max 0 (min 255 \<lfloor>50 + 205 * m1 / A\<rfloor>) \<le> max 0 (min 255 \<lfloor>50 + 205 * m2 / A\<rfloor>)"
    by simp
  have g1: "lux_to_green s m1 = Inr (max 0 (min 255 \<lfloor>50 + 205 * m1 / A\<rfloor>))"
    unfolding A_def using assms(1,2) by (rule lux_to_green_nonneg)
  have g2: "lux_to_green s m2 = Inr (max 0 (min 255 \<lfloor>50 + 205 * m2 / A\<rfloor>))"
    unfolding A_def using assms(1) m2 by (rule lux_to_green_nonneg)
  show ?thesis
    using g1 g2 mono by (simp add: lux_to_color_def)
qed

theorem lux_to_color_monotone_witness:
  "lux_to_green radar_new 500 = Inr 152 \<and> lux_to_green radar_new 5000 = Inr 255
   \<and> lux_to_color radar_new 500 = Inr ''#009800''
   \<and> lux_to_color radar_new 5000 = Inr ''#00ff00''"
proof -
  have h: "0 < amplitude_var radar_new" "(0::real) \<le> 500" "(500::real) \<le> 5000"
    by (simp_all add: radar_new_fields)
  have e: "lux_to_green radar_new 500 = Inr 152" "lux_to_green radar_new 5000 = Inr 255"
    by (simp_all add: lux_to_green_def radar_new_fields py_int_def)
  show ?thesis
    using lux_to_color_monotone [OF h] e
    by (auto simp add: format_02x_def hex_digit_def)
qed

subsection \<open>The lux conversion\<close>

lemma np_mean_pair: "np_mean [127, 129] = 128"
  by (simp add: np_mean_def)

text \<open>
  C6. When the camera delivers a frame, the reading is the mean intensity of the
  frame divided by 255 and multiplied by the amplitude; with mean intensity 128 and
  amplitude 1000 it is \<open>25600 / 51\<close>, which rounds to 502.
\<close>

theorem read_lux_from_camera_value:
  "(ret cam \<and> gray cam \<noteq> [] \<longrightarrow>
      read_lux_from_camera cam s =
        Inr ((np_mean (gray cam) / 255) * of_int (amplitude_var s)))
   \<and> (ret cam \<and> gray cam \<noteq> [] \<and> np_mean (gray cam) = 128 \<and> amplitude_var s = 1000 \<longrightarrow>
      read_lux_from_camera cam s = Inr (25600 / 51)
      \<and> round (25600 / 51 :: real) = 502)"
proof -
  have r: "round (25600 / 51 :: real) = 502"
    by (simp add: round_def)
  show ?thesis
    using r by (simp add: read_lux_from_camera_def Let_def)
qed

theorem read_lux_from_camera_value_witness:
  "read_lux_from_camera \<lparr>ret = True, gray = [127, 129]\<rparr> radar_new = Inr (25600 / 51)
   \<and> np_mean [127, 129] = 128"
  using read_lux_from_camera_value [of "\<lparr>ret = True, gray = [127, 129]\<rparr>" radar_new]
  by (simp add: np_mean_pair radar_new_fields)

subsection \<open>Reset\<close>

text \<open>
  C7. \<^verbatim>\<open>reset\<close> leaves the running flag as it finds it, in the stopped and in the
  running state alike; it changes nothing but the readings, the canvas items tagged
  \<^verbatim>\<open>dynamic\<close> and the angle: the three Tk variables, the camera, the label, the
  scheduled calls and the other canvas items are as before.
\<close>

theorem reset_frame:
  "running (reset s) = running s
   \<and> amplitude_var (reset s) = amplitude_var s
   \<and> sweep_var (reset s) = sweep_var s
   \<and> interval_var (reset s) = interval_var s
   \<and> cap_opened (reset s) = cap_opened s
   \<and> lux_label (reset s) = lux_label s
   \<and> pending (reset s) = pending s
   \<and> filter (\<lambda>it. \<not> List.member (item_tags it) ''dynamic'') (canvas (reset s)) =
       filter (\<lambda>it. \<not> List.member (item_tags it) ''dynamic'') (canvas s)
   \<and> reset s = s\<lparr>readings := readings (reset s), canvas := canvas (reset s),
                   angle := angle (reset s)\<rparr>
   \<and> reset (stop s) = stop (reset s)
   \<and> running (reset (start s))"
  by (simp add: reset_def canvas_delete_def stop_def start_def schedule_next_def)

lemma deque_append_nonempty: "0 < maxlen d \<Longrightarrow> items (deque_append d x) \<noteq> []"
proof -
  assume pos: "0 < maxlen d"
  show ?thesis
  proof (cases "items d")
    case Nil
    with pos show ?thesis by (simp add: deque_append_def Let_def)
  next
    case (Cons y ys)
    then show ?thesis by (cases ys) (simp_all add: deque_append_def Let_def)
  qed
qed

lemma aquisicao_maxlen:
  "maxlen (temps (foldl aquisicao_iter s inps)) = maxlen (temps s)
   \<and> maxlen (times (foldl aquisicao_iter s inps)) = maxlen (times s)"
  by (induction inps arbitrary: s)
    (simp_all add: aquisicao_iter_def Let_def deque_append_maxlen)

lemma aquisicao_iter_nonempty:
  "items (temps (aquisicao_iter (aquisicao (app_init now) inps) i)) \<noteq> []
   \<and> items (times (aquisicao_iter (aquisicao (app_init now) inps) i)) \<noteq> []"
proof -
  have "0 < maxlen (temps (aquisicao (app_init now) inps))"
    "0 < maxlen (times (aquisicao (app_init now) inps))"
    by (simp_all add: aquisicao_def aquisicao_maxlen app_init_def deque_new_def MAX_PONTOS_def)
  then show ?thesis
    by (simp add: aquisicao_iter_def Let_def deque_append_nonempty)
qed

text \<open>
  C3 (as amended). Whatever the state of the radar, running or stopped, \<^verbatim>\<open>reset\<close>
  leaves the buffer as 360 zeros and the angle at 0, as \<^verbatim>\<open>__init__\<close> set them. The
  temperature dashboard has no reset: its two series are empty when the object is
  built, \<^verbatim>\<open>update_gui\<close> leaves them as they are, and every turn of the acquisition
  loop leaves them non-empty.
\<close>

theorem reset_clears_radar:
  "readings (reset s) = replicate 360 0
   \<and> set (readings (reset s)) = {0}
   \<and> angle (reset s) = 0
   \<and> readings (reset s) = readings radar_new
   \<and> angle (reset s) = angle radar_new
   \<and> items (temps (app_init now)) = []
   \<and> items (times (app_init now)) = []
   \<and> temps (update_gui a) = temps a
   \<and> times (update_gui a) = times a
   \<and> items (temps (aquisicao_iter (aquisicao (app_init now) inps) i)) \<noteq> []
   \<and> items (times (aquisicao_iter (aquisicao (app_init now) inps) i)) \<noteq> []"
  using aquisicao_iter_nonempty [of now inps i]
  by (simp add: reset_def radar_new_fields app_init_def deque_new_def update_gui_def)

text \<open>
  C3 as first stated gives the dashboard a reset that empties the time series.
  \<^verbatim>\<open>App\<close> has two methods that run after \<^verbatim>\<open>__init__\<close>, the acquisition loop and
  \<^verbatim>\<open>update_gui\<close>; once the series holds a sample, neither empties it.
\<close>

theorem no_reset_in_dashboard_counterexample:
  "items (times (aquisicao (app_init 0) [(1 / 2, 1)])) = [1]
   \<and> items (times (update_gui (aquisicao (app_init 0) [(1 / 2, 1)]))) = [1]
   \<and> items (times (aquisicao_iter (aquisicao (app_init 0) [(1 / 2, 1)]) (0, 2))) = [1, 2]"
  by (simp add: aquisicao_def aquisicao_iter_def app_init_def deque_new_def deque_append_def
      update_gui_def Let_def MAX_PONTOS_def)

subsection \<open>The update tick\<close>

lemma read_lux_failed: "\<not> ret cam \<Longrightarrow> read_lux_from_camera cam s = Inr 0"
  by (simp add: read_lux_from_camera_def)

lemma list_setitem_in_range:
  "0 \<le> i \<Longrightarrow> i < int (length xs) \<Longrightarrow> list_setitem xs i v = Inr (xs[nat i := v])"
  by (simp add: list_setitem_def Let_def)

lemma radar_inv_setitem:
  "radar_inv s \<Longrightarrow> list_setitem (readings s) (angle s) v = Inr ((readings s)[nat (angle s) := v])"
  by (rule list_setitem_in_range) (simp_all add: radar_inv_def)

lemma update_tick:
  assumes "running s" and "read_lux_from_camera cam s = Inr v" and "radar_inv s"
  shows "readings (snd (update cam s)) = (readings s)[nat (angle s) := v]"
    and "angle (snd (update cam s)) = angle s
         \<or> angle (snd (update cam s)) = (angle s + sweep_var s) mod 360"
    and "amplitude_var s \<noteq> 0 \<Longrightarrow> fst (update cam s) = None"
    and "amplitude_var s \<noteq> 0 \<Longrightarrow> angle (snd (update cam s)) = (angle s + sweep_var s) mod 360"
    and "amplitude_var s \<noteq> 0 \<Longrightarrow> pending (snd (update cam s)) = pending s @ [interval_var s]"
    and "running (snd (update cam s))"
    and "amplitude_var (snd (update cam s)) = amplitude_var s"
    and "sweep_var (snd (update cam s)) = sweep_var s"
    and "interval_var (snd (update cam s)) = interval_var s"
proof -
  from update_stored [OF assms(1,2) radar_inv_setitem [OF assms(3)]]
  obtain c where u: "update cam s =
      (if amplitude_var s = 0 \<and> fst (update cam s) \<noteq> None
       then (fst (update cam s),
             s\<lparr>readings := (readings s)[nat (angle s) := v], lux_label := Some v, canvas := c\<rparr>)
       else (None, s\<lparr>readings := (readings s)[nat (angle s) := v], lux_label := Some v,
                      canvas := c, angle := (angle s + sweep_var s) mod 360,
                      pending := pending s @ [interval_var s]\<rparr>))"
    by blast
  show "readings (snd (update cam s)) = (readings s)[nat (angle s) := v]"
    by (subst u) simp
  show "angle (snd (update cam s)) = angle s
         \<or> angle (snd (update cam s)) = (angle s + sweep_var s) mod 360"
    by (subst u, subst (3) u) simp
  show "running (snd (update cam s))"
    using assms(1) by (subst u) simp
  show "amplitude_var (snd (update cam s)) = amplitude_var s"
    by (subst u) simp
  show "sweep_var (snd (update cam s)) = sweep_var s"
    by (subst u) simp
  show "interval_var (snd (update cam s)) = interval_var s"
    by (subst u) simp
  {
    assume nz: "amplitude_var s \<noteq> 0"
    with u have u': "update cam s =
        (None, s\<lparr>readings := (readings s)[nat (angle s) := v], lux_label := Some v,
                      canvas := c, angle := (angle s + sweep_var s) mod 360,
                      pending := pending s @ [interval_var s]\<rparr>)"
      by simp
    show "fst (update cam s) = None" by (simp add: u')
    show "angle (snd (update cam s)) = (angle s + sweep_var s) mod 360" by (simp add: u')
    show "pending (snd (update cam s)) = pending s @ [interval_var s]" by (simp add: u')
  }
qed

text \<open>
  C5. On a tick of the running radar on which the camera read fails, reading the lux
  returns 0.0 and raises nothing, and after the tick the slot of the buffer at the
  angle the tick started with holds that zero. The tick as a whole raises nothing
  when the amplitude is not zero.
\<close>

theorem failed_read_stores_zero:
  assumes "running s" and "\<not> ret cam" and "radar_inv s"
  shows "read_lux_from_camera cam s = Inr 0
         \<and> readings (snd (update cam s)) = (readings s)[nat (angle s) := 0]
         \<and> readings (snd (update cam s)) ! nat (angle s) = 0
         \<and> (amplitude_var s \<noteq> 0 \<longrightarrow> fst (update cam s) = None)"
proof -
  have r: "read_lux_from_camera cam s = Inr 0"
    using assms(2) by (rule read_lux_failed)
  have st: "readings (snd (update cam s)) = (readings s)[nat (angle s) := 0]"
    using assms(1) r assms(3) by (rule update_tick(1))
  have "nat (angle s) < length (readings s)"
    using assms(3) by (auto simp add: radar_inv_def)
  then have z: "readings (snd (update cam s)) ! nat (angle s) = 0"
    by (simp add: st)
  have "amplitude_var s \<noteq> 0 \<longrightarrow> fst (update cam s) = None"
    using update_tick(3) [OF assms(1) r assms(3)] by blast
  with r st z show ?thesis by blast
qed

lemma radar_inv_new: "radar_inv radar_new"
  by (simp add: radar_inv_def radar_new_fields)

lemma radar_inv_start: "radar_inv (start s) = radar_inv s"
  by (simp add: radar_inv_def start_def schedule_next_def)

lemma running_start: "running (start s)"
  by (simp add: start_def schedule_next_def)

theorem failed_read_stores_zero_witness:
  "read_lux_from_camera \<lparr>ret = False, gray = []\<rparr> (start radar_new) = Inr 0
   \<and> readings (snd (update \<lparr>ret = False, gray = []\<rparr> (start radar_new))) ! 0 = 0
   \<and> fst (update \<lparr>ret = False, gray = []\<rparr> (start radar_new)) = None"
proof -
  have a: "angle (start radar_new) = 0" "amplitude_var (start radar_new) = 1000"
    "readings (start radar_new) = replicate 360 0"
    by (simp_all add: start_def schedule_next_def radar_new_fields)
  have i: "radar_inv (start radar_new)"
    by (simp add: radar_inv_start radar_inv_new)
  show ?thesis
    using failed_read_stores_zero [of "start radar_new" "\<lparr>ret = False, gray = []\<rparr>"] i
    by (simp add: running_start a)
qed

lemma update_preserves_inv: "radar_inv s \<Longrightarrow> radar_inv (snd (update cam s))"
proof (cases "running s")
  case False
  assume "radar_inv s"
  with False show ?thesis by (simp add: update_idle)
next
  case True
  assume inv: "radar_inv s"
  show ?thesis
  proof (cases "read_lux_from_camera cam s")
    case (Inl e)
    with True inv show ?thesis by (simp add: update_read_error)
  next
    case (Inr v)
    have len: "length (readings (snd (update cam s))) = 360"
      using update_tick(1) [OF True Inr inv] inv by (simp add: radar_inv_def)
    have "0 \<le> (angle s + sweep_var s) mod 360" "(angle s + sweep_var s) mod 360 \<le> 359"
      by simp_all
    with update_tick(2) [OF True Inr inv] inv
    have "0 \<le> angle (snd (update cam s)) \<and> angle (snd (update cam s)) \<le> 359"
      by (auto simp add: radar_inv_def)
    with len show ?thesis by (simp add: radar_inv_def)
  qed
qed

text \<open>
  C9. The angle lies between 0 and 359 and the buffer has 360 slots: this holds of the
  object \<^verbatim>\<open>__init__\<close> builds, holds after every \<^verbatim>\<open>reset\<close>, and is kept by every
  \<^verbatim>\<open>_update\<close> tick with a sweep between 1 and 10, whether or not the tick raises.
\<close>

theorem radar_invariant:
  "(radar_init opened = Inr s0 \<longrightarrow> radar_inv s0)
   \<and> radar_inv (reset s)
   \<and> (radar_inv s \<and> 1 \<le> sweep_var s \<and> sweep_var s \<le> 10 \<longrightarrow> radar_inv (snd (update cam s)))"
proof (intro conjI impI)
  assume "radar_init opened = Inr s0"
  then have "s0 = radar_new" by (simp add: radar_init_def split: if_splits)
  then show "radar_inv s0" by (simp add: radar_inv_new)
next
  show "radar_inv (reset s)" by (simp add: radar_inv_def reset_def)
next
  assume "radar_inv s \<and> 1 \<le> sweep_var s \<and> sweep_var s \<le> 10"
  then show "radar_inv (snd (update cam s))" by (simp add: update_preserves_inv)
qed

theorem radar_invariant_witness:
  "radar_inv radar_new
   \<and> radar_inv (reset (start radar_new))
   \<and> radar_inv (snd (update \<lparr>ret = True, gray = [127, 129]\<rparr> (start radar_new)))
   \<and> angle (snd (update \<lparr>ret = True, gray = [127, 129]\<rparr> (start radar_new))) = 2"
proof -
  have f: "sweep_var (start radar_new) = 2" "angle (start radar_new) = 0"
    "amplitude_var (start radar_new) \<noteq> 0"
    by (simp_all add: start_def schedule_next_def radar_new_fields)
  have i: "radar_inv (start radar_new)"
    by (simp add: radar_inv_start radar_inv_new)
  have r: "read_lux_from_camera \<lparr>ret = True, gray = [127, 129]\<rparr> (start radar_new) =
      Inr (np_mean [127, 129] / 255 * of_int (amplitude_var (start radar_new)))"
    by (simp add: read_lux_from_camera_def Let_def)
  have a: "angle (snd (update \<lparr>ret = True, gray = [127, 129]\<rparr> (start radar_new))) = 2"
    using update_tick(4) [OF running_start r i f(3)] by (simp add: f)
  show ?thesis
    using radar_invariant [of True radar_new "start radar_new"
        "\<lparr>ret = True, gray = [127, 129]\<rparr>"] i a
    by (simp add: radar_init_def f)
qed

subsection \<open>Start and the scheduled calls\<close>

lemma start_when_running: "running s \<Longrightarrow> start s = s"
  by (simp add: start_def)

lemma start_idempotent: "start (start s) = start s"
  by (simp add: start_when_running running_start)

lemma fire_failed_read:
  assumes "running s" and "pending s = d # ds" and "\<not> ret cam" and "radar_inv s"
    and "amplitude_var s \<noteq> 0"
  shows "fst (fire cam s) = None"
    and "pending (snd (fire cam s)) = ds @ [interval_var s]"
    and "running (snd (fire cam s))"
    and "angle (snd (fire cam s)) = (angle s + sweep_var s) mod 360"
    and "radar_inv (snd (fire cam s))"
    and "amplitude_var (snd (fire cam s)) = amplitude_var s"
    and "sweep_var (snd (fire cam s)) = sweep_var s"
    and "interval_var (snd (fire cam s)) = interval_var s"
proof -
  define t where "t = s\<lparr>pending := ds\<rparr>"
  have f: "fire cam s = update cam t"
    using assms(2) by (simp add: fire_def t_def)
  have t: "running t" "radar_inv t" "amplitude_var t \<noteq> 0" "pending t = ds"
    "interval_var t = interval_var s" "angle t = angle s" "sweep_var t = sweep_var s"
    "amplitude_var t = amplitude_var s"
    using assms by (simp_all add: t_def radar_inv_def)
  have r: "read_lux_from_camera cam t = Inr 0"
    using assms(3) by (rule read_lux_failed)
  show "fst (fire cam s) = None"
    unfolding f using update_tick(3) [OF t(1) r t(2) t(3)] .
  show "pending (snd (fire cam s)) = ds @ [interval_var s]"
    unfolding f using update_tick(5) [OF t(1) r t(2) t(3)] by (simp add: t)
  show "running (snd (fire cam s))"
    unfolding f using update_tick(6) [OF t(1) r t(2)] .
  show "angle (snd (fire cam s)) = (angle s + sweep_var s) mod 360"
    unfolding f using update_tick(4) [OF t(1) r t(2) t(3)] by (simp add: t)
  show "radar_inv (snd (fire cam s))"
    unfolding f using t(2) by (rule update_preserves_inv)
  show "amplitude_var (snd (fire cam s)) = amplitude_var s"
    unfolding f using update_tick(7) [OF t(1) r t(2)] by (simp add: t)
  show "sweep_var (snd (fire cam s)) = sweep_var s"
    unfolding f using update_tick(8) [OF t(1) r t(2)] by (simp add: t)
  show "interval_var (snd (fire cam s)) = interval_var s"
    unfolding f using update_tick(9) [OF t(1) r t(2)] by (simp add: t)
qed

text \<open>
  C8. \<^verbatim>\<open>start\<close> on a running radar changes nothing (\<open>start_when_running\<close>,
  \<open>start_idempotent\<close>). Yet \<^verbatim>\<open>stop\<close> leaves the scheduled call in Tk's queue, so a
  \<^verbatim>\<open>start\<close> that follows it before the call has run schedules a second one: after
  start, stop, start on the new radar two calls of \<^verbatim>\<open>_update\<close> are pending, each
  finds the radar running and schedules its successor, and two update loops go on.
\<close>

theorem start_stop_start_two_loops:
  "pending (start radar_new) = [60]
   \<and> pending (start (stop (start radar_new))) = [60, 60]
   \<and> running (start (stop (start radar_new)))
   \<and> pending (snd (fire \<lparr>ret = False, gray = []\<rparr> (start (stop (start radar_new))))) = [60, 60]
   \<and> running (snd (fire \<lparr>ret = False, gray = []\<rparr> (start (stop (start radar_new)))))
   \<and> pending (snd (fire \<lparr>ret = False, gray = []\<rparr>
        (snd (fire \<lparr>ret = False, gray = []\<rparr> (start (stop (start radar_new))))))) = [60, 60]
   \<and> running (snd (fire \<lparr>ret = False, gray = []\<rparr>
        (snd (fire \<lparr>ret = False, gray = []\<rparr> (start (stop (start radar_new)))))))"
proof -
  define cam where "cam = \<lparr>ret = False, gray = []\<rparr>"
  define s where "s = start (stop (start radar_new))"
  define s1 where "s1 = snd (fire cam s)"
  define s2 where "s2 = snd (fire cam s1)"
  have c: "\<not> ret cam" by (simp add: cam_def)
  have p0: "pending (start radar_new) = [60]"
    by (simp add: start_def schedule_next_def radar_new_fields)
  have s: "running s" "pending s = [60, 60]" "radar_inv s" "amplitude_var s \<noteq> 0"
    "interval_var s = 60"
    by (simp_all add: s_def start_def stop_def schedule_next_def radar_new_fields radar_inv_def)
  have p: "pending s = 60 # [60]" by (simp add: s)
  have s1: "running s1" "pending s1 = 60 # [60]" "radar_inv s1" "amplitude_var s1 \<noteq> 0"
    "interval_var s1 = 60"
    unfolding s1_def
    using fire_failed_read [OF s(1) p c s(3) s(4)] s by simp_all
  have s2: "running s2" "pending s2 = [60, 60]"
    unfolding s2_def
    using fire_failed_read [OF s1(1) s1(2) c s1(3) s1(4)] s1 by simp_all
  show ?thesis
    using p0 s s1 s2 unfolding s2_def s1_def s_def cam_def by simp
qed

end
